theory Spec2Isabelle
  imports Complex_Main
begin

section \<open>The RDF graph viewer: projection, history and timeline\<close>

text \<open>
  A shallow embedding of the class \<open>RDFGraphViewer\<close> of
  \<open>rdf-graph-viewer/src/main.js\<close>: the URI shortener \<open>shortenURI\<close>, the projection
  \<open>triplesToGraph\<close> of parsed triples to a node-link graph, the history of states kept by
  \<open>addNewState\<close>, and the timeline operations \<open>seekToTime\<close>, \<open>seekToTick\<close>,
  \<open>updateLiveStatus\<close> and \<open>goToLive\<close>.

  JavaScript strings are modelled as \<open>string\<close> and the integers the code stores in
  \<open>currentStateIndex\<close> as \<open>int\<close>. A timestamp or a time is the real number that the
  JavaScript number (an IEEE 754 double) denotes, and every division and subtraction of
  the code is rounded to a double by \<open>round_double\<close>.
  The SVG scene, the sliders and the text spans are display only and are left out; the
  calls of \<open>renderState\<close> are kept as a log. What is kept of the D3 force simulation is
  that it writes into the node and link objects it is given, which are the objects of
  the history.
\<close>

subsection \<open>shortenURI\<close>

text \<open>
  \<open>uri.match(/[#/]([^#/]+)$/)\<close>: the regular expression is tried at every start
  position from the left. At one position it needs a separator, then one or more
  characters that are no separator, then the end of the string; the group is what follows
  the separator.
\<close>

definition is_sep :: "char \<Rightarrow> bool" where
  "is_sep c = (c = CHR ''#'' \<or> c = CHR ''/'')"

fun match_at :: "string \<Rightarrow> string option" where
  "match_at [] = None"
| "match_at (c # cs) =
     (if is_sep c \<and> cs \<noteq> [] \<and> list_all (\<lambda>d. \<not> is_sep d) cs then Some cs else None)"

fun regex_match :: "string \<Rightarrow> string option" where
  "regex_match [] = None"
| "regex_match (c # cs) =
     (case match_at (c # cs) of Some g \<Rightarrow> Some g | None \<Rightarrow> regex_match cs)"

definition shortenURI :: "string \<Rightarrow> string" where
  "shortenURI uri = (case regex_match uri of Some g \<Rightarrow> g | None \<Rightarrow> uri)"

text \<open>
  The contract in the words of the specification, for comparison: the substring after
  the last separator, and whether the string has a separator at all.
\<close>

definition after_last_sep :: "string \<Rightarrow> string" where
  "after_last_sep uri = rev (takeWhile (\<lambda>c. \<not> is_sep c) (rev uri))"

definition has_sep :: "string \<Rightarrow> bool" where
  "has_sep uri = list_ex is_sep uri"

definition shorten_spec :: "string \<Rightarrow> string" where
  "shorten_spec uri = (if has_sep uri then after_last_sep uri else uri)"

subsection \<open>Triples, nodes and links\<close>

datatype termType = NamedNode | BlankNode | Literal | Variable

record rdfterm =
  termType :: termType
  value_term :: string

record triple =
  subject :: rdfterm
  predicate :: rdfterm
  object :: rdfterm

text \<open>
  A node object has the property \<open>isType: true\<close> when it was made for the object of a
  type statement, and no such property otherwise; \<open>isType = False\<close> stands for the
  absent property.
\<close>

record node =
  id_node :: string
  label :: string
  types :: "string list"
  isType :: bool

record link =
  source :: string
  target :: string
  predicate_link :: string

record graphData =
  nodes :: "node list"
  links :: "link list"

subsection \<open>JavaScript Map\<close>

text \<open>
  A \<open>Map\<close> keeps its entries in insertion order; setting a key that is present keeps
  the entry's position.
\<close>

type_synonym ('k, 'v) jsmap = "('k \<times> 'v) list"

definition map_has :: "('k, 'v) jsmap \<Rightarrow> 'k \<Rightarrow> bool" where
  "map_has m k = (map_of m k \<noteq> None)"

definition map_get :: "('k, 'v) jsmap \<Rightarrow> 'k \<Rightarrow> 'v option" where
  "map_get m k = map_of m k"

fun map_set :: "('k, 'v) jsmap \<Rightarrow> 'k \<Rightarrow> 'v \<Rightarrow> ('k, 'v) jsmap" where
  "map_set [] k v = [(k, v)]"
| "map_set ((k', v') # m) k v =
     (if k' = k then (k, v) # m else (k', v') # map_set m k v)"

definition map_values :: "('k, 'v) jsmap \<Rightarrow> 'v list" where
  "map_values m = map snd m"

subsection \<open>triplesToGraph\<close>

text \<open>First pass: the shortened objects of the type statements, by shortened subject.\<close>

definition typePass :: "(string, string list) jsmap \<Rightarrow> triple \<Rightarrow> (string, string list) jsmap" where
  "typePass nodeTypes t =
     (let subj = shortenURI (value_term (subject t));
          pred = shortenURI (value_term (predicate t));
          obj = shortenURI (value_term (object t))
      in if pred = ''type''
         then (let nodeTypes1 =
                     (if \<not> map_has nodeTypes subj then map_set nodeTypes subj [] else nodeTypes)
               in case map_get nodeTypes1 subj of
                    Some ts \<Rightarrow> map_set nodeTypes1 subj (ts @ [obj])
                  | None \<Rightarrow> nodeTypes1)
         else nodeTypes)"

text \<open>
  The node object written for a subject, and for the object of a statement that is no
  type statement: \<open>types\<close> is \<open>nodeTypes.get(name) || []\<close> under \<open>'on'\<close>, and empty
  otherwise.
\<close>

definition plainNode :: "string \<Rightarrow> (string, string list) jsmap \<Rightarrow> string \<Rightarrow> node" where
  "plainNode typeDisplay nodeTypes name =
     \<lparr>id_node = name, label = name,
      types = (if typeDisplay = ''on''
               then (case map_get nodeTypes name of Some ts \<Rightarrow> ts | None \<Rightarrow> [])
               else []),
      isType = False\<rparr>"

definition typeNode :: "string \<Rightarrow> node" where
  "typeNode name = \<lparr>id_node = name, label = name, types = [], isType = True\<rparr>"

definition ensureNode :: "(string, node) jsmap \<Rightarrow> string \<Rightarrow> node \<Rightarrow> (string, node) jsmap" where
  "ensureNode ns name n = (if \<not> map_has ns name then map_set ns name n else ns)"

text \<open>Second pass: one statement, on the node map and the link array built so far.\<close>

definition buildPass ::
  "string \<Rightarrow> (string, string list) jsmap \<Rightarrow> triple \<Rightarrow>
   (string, node) jsmap \<times> link list \<Rightarrow> (string, node) jsmap \<times> link list" where
  "buildPass typeDisplay nodeTypes t acc =
     (let ns = fst acc; ls = snd acc;
          subj = shortenURI (value_term (subject t));
          pred = shortenURI (value_term (predicate t));
          obj = shortenURI (value_term (object t))
      in if pred = ''type''
         then (let ns1 = ensureNode ns subj (plainNode typeDisplay nodeTypes subj)
               in if typeDisplay = ''nodes''
                  then (ensureNode ns1 obj (typeNode obj),
                        ls @ [\<lparr>source = subj, target = obj, predicate_link = pred\<rparr>])
                  else (ns1, ls))
         else (let ns1 = ensureNode ns subj (plainNode typeDisplay nodeTypes subj)
               in if termType (object t) = NamedNode
                  then (ensureNode ns1 obj (plainNode typeDisplay nodeTypes obj),
                        ls @ [\<lparr>source = subj, target = obj, predicate_link = pred\<rparr>])
                  else (ns1, ls)))"

definition triplesToGraph :: "string \<Rightarrow> triple list \<Rightarrow> graphData" where
  "triplesToGraph typeDisplay triples =
     (let nodeTypes = fold (\<lambda>t m. typePass m t) triples [];
          acc = fold (buildPass typeDisplay nodeTypes) triples ([], [])
      in \<lparr>nodes = map_values (fst acc), links = snd acc\<rparr>)"

text \<open>
  What the second pass does with the object of a statement: it writes a node for it and
  pushes the link \<open>linkOf t\<close> exactly when \<open>emits\<close> holds, that is, for a type
  statement under \<open>'nodes'\<close>, and for any other statement when the object's
  \<open>termType\<close> is \<open>'NamedNode'\<close>.
\<close>

definition emits :: "string \<Rightarrow> triple \<Rightarrow> bool" where
  "emits typeDisplay t =
     (if shortenURI (value_term (predicate t)) = ''type'' then typeDisplay = ''nodes''
      else termType (object t) = NamedNode)"

definition linkOf :: "triple \<Rightarrow> link" where
  "linkOf t = \<lparr>source = shortenURI (value_term (subject t)),
              target = shortenURI (value_term (object t)),
              predicate_link = shortenURI (value_term (predicate t))\<rparr>"

text \<open>
  Invariants of the second pass: every entry of the node map is stored under its own id,
  and both ends of every link are keys of the node map.
\<close>

definition keyed :: "(string, node) jsmap \<Rightarrow> bool" where
  "keyed ns = list_all (\<lambda>(k, n). id_node n = k) ns"

definition closed_links :: "(string, node) jsmap \<times> link list \<Rightarrow> bool" where
  "closed_links acc =
     (keyed (fst acc) \<and>
      list_all (\<lambda>l. source l \<in> fst ` set (fst acc) \<and> target l \<in> fst ` set (fst acc))
        (snd acc))"

text \<open>The statements of the examples.\<close>

definition iri :: "string \<Rightarrow> rdfterm" where
  "iri s = \<lparr>termType = NamedNode, value_term = s\<rparr>"

definition lit :: "string \<Rightarrow> rdfterm" where
  "lit s = \<lparr>termType = Literal, value_term = s\<rparr>"

definition stmt :: "rdfterm \<Rightarrow> rdfterm \<Rightarrow> rdfterm \<Rightarrow> triple" where
  "stmt s p ob = \<lparr>subject = s, predicate = p, object = ob\<rparr>"

definition rdf_type :: rdfterm where
  "rdf_type = iri ''http://www.w3.org/1999/02/22-rdf-syntax-ns#type''"

definition example_triples :: "triple list" where
  "example_triples =
     [stmt (iri ''http://example.org/a'') rdf_type (iri ''http://example.org/Person''),
      stmt (iri ''http://example.org/a'') (iri ''http://example.org/knows'')
           (iri ''http://example.org/b'')]"

definition name_triple :: triple where
  "name_triple =
     stmt (iri ''http://example.org/b'') (iri ''http://example.org/name'') (lit ''b'')"

definition literal_type_triple :: triple where
  "literal_type_triple = stmt (iri ''http://example.org/a'') rdf_type (lit ''Person'')"

subsection \<open>JavaScript numbers\<close>

text \<open>
  The result of an arithmetic operation on doubles is the exact result rounded to the
  nearest double, a tie going to the double with the even significand. The finite doubles
  are the multiples of 2 to the power -1074 that have at most 53 significant bits and lie
  below 2 to the power 1024. So the exact result is scaled by \<open>2 ^ 1074\<close>; when the
  scaled magnitude \<open>n\<close> has more than 53 bits, \<open>e\<close> is the number of bits beyond 53, and
  \<open>n\<close> is rounded to a multiple of \<open>2 ^ e\<close>. A result that rounds to \<open>2 ^ 1024\<close> or
  beyond is \<open>Infinity\<close>, for which \<open>2 ^ 1024\<close> stands: it is above every finite double,
  and \<open>Math.abs\<close> and \<open><\<close> treat it as they treat \<open>Infinity\<close>. The numbers of the
  viewer are finite: the clock differences of \<open>addNewState\<close> and the values of the time
  slider; \<open>NaN\<close> does not arise from them.
\<close>

fun bitlength :: "nat \<Rightarrow> nat" where
  "bitlength n = (if n = 0 then 0 else Suc (bitlength (n div 2)))"

declare bitlength.simps [simp del]

definition round_half_even :: "real \<Rightarrow> int" where
  "round_half_even x =
     (let f = \<lfloor>x\<rfloor>; d = x - of_int f
      in if d < 1 / 2 then f else if 1 / 2 < d then f + 1 else if even f then f else f + 1)"

definition round_double :: "real \<Rightarrow> real" where
  "round_double x =
     (let n = \<bar>x\<bar> * 2 ^ 1074;
          e = (if n < 2 ^ 53 then 0 else bitlength (nat \<lfloor>n\<rfloor>) - 53);
          r = of_int (round_half_even (n / 2 ^ e)) * 2 ^ e / 2 ^ 1074;
          m = (if 2 ^ 1024 \<le> r then 2 ^ 1024 else r)
      in if x < 0 then - m else m)"

text \<open>\<open>Math.abs(a - b)\<close>: the subtraction rounds, the absolute value is exact.\<close>

definition abs_diff :: "real \<Rightarrow> real \<Rightarrow> real" where
  "abs_diff a b = \<bar>round_double (a - b)\<bar>"

subsection \<open>The viewer's state\<close>

text \<open>
  A state of the history is the graph with the time of its capture, in seconds since the
  viewer started.

  \<open>inSimulation\<close> is not a property of the state object. \<open>renderState\<close> hands the
  arrays of the state, \<open>data.nodes\<close> and \<open>data.links\<close>, to the force simulation
  (\<open>this.simulation.nodes(data.nodes)\<close>, \<open>this.simulation.force('link').links(data.links)\<close>),
  and the simulation writes its layout into these very objects: \<open>index\<close>, \<open>x\<close>, \<open>y\<close>,
  \<open>vx\<close>, \<open>vy\<close> into every node, and the node objects in place of the ids in \<open>source\<close>
  and \<open>target\<close> of every link. The viewer reads them back: \<open>ticked\<close> uses \<open>d.x\<close>,
  \<open>d.y\<close>, \<open>d.source.x\<close> and \<open>d.target.x\<close>, and the key functions of the links use
  \<open>d.source.id || d.source\<close>. \<open>inSimulation\<close> records that this has happened to the
  objects of the state.
\<close>

record snapshot = graphData +
  timestamp :: real
  inSimulation :: bool

text \<open>
  The fields of \<open>RDFGraphViewer\<close> the history and the timeline use. \<open>renderCalls\<close> is
  not a field of the class: it logs every call \<open>renderState(index, animate)\<close>, in order.
\<close>

record viewer =
  states :: "snapshot list"
  currentStateIndex :: int
  lastRenderedIndex :: int
  isLive :: bool
  isPaused :: bool
  startTime :: int
  lastRdfContent :: "string option"
  rdfFilePath :: string
  typeDisplay :: string
  renderCalls :: "(int \<times> bool) list"

text \<open>The constructor, at the clock value \<open>now\<close> (milliseconds).\<close>

definition newViewer :: "int \<Rightarrow> viewer" where
  "newViewer now =
     \<lparr>states = [], currentStateIndex = 0, lastRenderedIndex = - 1,
      isLive = True, isPaused = False, startTime = now, lastRdfContent = None,
      rdfFilePath = ''/index.rdf'', typeDisplay = ''on'', renderCalls = []\<rparr>"

datatype Mode = Live | Paused

text \<open>
  The viewer follows new states when \<open>this.isLive && !this.isPaused\<close>, the test of
  \<open>addNewState\<close>.
\<close>

definition mode :: "viewer \<Rightarrow> Mode" where
  "mode v = (if isLive v \<and> \<not> isPaused v then Live else Paused)"

definition maxTick :: "viewer \<Rightarrow> int" where
  "maxTick v = int (length (states v)) - 1"

definition renderState :: "viewer \<Rightarrow> int \<Rightarrow> bool \<Rightarrow> viewer" where
  "renderState v index animate =
     (let v1 = v\<lparr>renderCalls := renderCalls v @ [(index, animate)]\<rparr>
      in if index < 0 \<or> index \<ge> int (length (states v1)) then v1
         else if index = lastRenderedIndex v1 then v1
         else v1\<lparr>lastRenderedIndex := index,
                 states := (states v1)[nat index :=
                             (states v1 ! nat index)\<lparr>inSimulation := True\<rparr>]\<rparr>)"

definition updateLiveStatus :: "viewer \<Rightarrow> viewer" where
  "updateLiveStatus v =
     (let isAtLatest = (currentStateIndex v = int (length (states v)) - 1);
          v1 = v\<lparr>isLive := isAtLatest \<and> \<not> isPaused v\<rparr>
      in if isLive v1 then v1\<lparr>isPaused := False\<rparr> else v1\<lparr>isPaused := True\<rparr>)"

subsection \<open>Timeline operations\<close>

text \<open>
  The loop of \<open>seekToTime\<close>, \<open>for (let i = 1; i < this.states.length; i++)\<close>, with its
  variables \<open>closestIndex\<close> and \<open>minDiff\<close>.
\<close>

function seekLoop :: "snapshot list \<Rightarrow> real \<Rightarrow> nat \<Rightarrow> nat \<Rightarrow> real \<Rightarrow> nat" where
  "seekLoop sts timeValue i closestIndex minDiff =
     (if i < length sts
      then (let diff = abs_diff (timestamp (sts ! i)) timeValue
            in if diff < minDiff
               then seekLoop sts timeValue (i + 1) i diff
               else seekLoop sts timeValue (i + 1) closestIndex minDiff)
      else closestIndex)"
  by pat_completeness auto
termination
  by (relation "measure (\<lambda>(sts, timeValue, i, closestIndex, minDiff). length sts - i)") auto

declare seekLoop.simps [simp del]

definition seekToTime :: "viewer \<Rightarrow> real \<Rightarrow> viewer" where
  "seekToTime v timeValue =
     (if length (states v) = 0 then v
      else (let closestIndex =
                  seekLoop (states v) timeValue 1 0
                    (abs_diff (timestamp (states v ! 0)) timeValue);
                v1 = v\<lparr>currentStateIndex := int closestIndex\<rparr>;
                v2 = updateLiveStatus v1
            in renderState v2 (currentStateIndex v2) False))"

definition seekToTick :: "viewer \<Rightarrow> int \<Rightarrow> viewer" where
  "seekToTick v tickValue =
     (let v1 = v\<lparr>currentStateIndex := tickValue\<rparr>;
          v2 = updateLiveStatus v1
      in renderState v2 (currentStateIndex v2) False)"

definition goToLive :: "viewer \<Rightarrow> viewer" where
  "goToLive v =
     (if length (states v) > 0
      then (let v1 = v\<lparr>isLive := True, isPaused := False,
                       currentStateIndex := int (length (states v)) - 1\<rparr>;
                v2 = renderState v1 (currentStateIndex v1) False
            in updateLiveStatus v2)
      else v)"

text \<open>The click handler of the timeline wrapper.\<close>

definition onTimelineClick :: "viewer \<Rightarrow> viewer" where
  "onTimelineClick v =
     (if isLive v then updateLiveStatus (v\<lparr>isLive := False, isPaused := True\<rparr>) else v)"

text \<open>The change handler of the file path input.\<close>

definition onRdfFilePathChange :: "viewer \<Rightarrow> string \<Rightarrow> viewer" where
  "onRdfFilePathChange v path = v\<lparr>rdfFilePath := path, states := [], lastRdfContent := None\<rparr>"

subsection \<open>addNewState\<close>

text \<open>
  \<open>JSON.stringify(lastData) === JSON.stringify(currentData)\<close>, for the newest state of
  the history and the graph that \<open>triplesToGraph\<close> has just built. The text of an
  object is a function of its properties and determines them, so the texts of two graphs
  as \<open>triplesToGraph\<close> builds them are equal exactly when the node and link arrays are.
  The text of a node or link that the simulation has written into holds the written
  properties too, and is the text of no newly built one.
\<close>

definition sameJSON :: "snapshot \<Rightarrow> graphData \<Rightarrow> bool" where
  "sameJSON lastState g =
     (nodes lastState = nodes g \<and> links lastState = links g \<and>
      \<not> (inSimulation lastState \<and> \<not> (nodes lastState = [] \<and> links lastState = [])))"

text \<open>
  \<open>addNewState\<close> returns nothing; the model returns which way it left: \<open>Deduped\<close> for
  the early return on a duplicate, \<open>Added tick\<close> after the push. \<open>addGraphData\<close> is the
  body of \<open>addNewState\<close> after its first line, for the graph \<open>g\<close> that line computed and
  the clock value \<open>now\<close> (milliseconds).
\<close>

datatype AppendResult = Added nat | Deduped

definition addGraphData :: "viewer \<Rightarrow> graphData \<Rightarrow> int \<Rightarrow> AppendResult \<times> viewer" where
  "addGraphData v g now =
     (let ts = round_double (real_of_int (now - startTime v) / 1000)
      in if length (states v) > 0 \<and> sameJSON (last (states v)) g
         then (Deduped, v)
         else (let v1 = v\<lparr>states := states v @
                          [\<lparr>nodes = nodes g, links = links g, timestamp = ts,
                            inSimulation = False\<rparr>]\<rparr>;
                   v2 = (if isLive v1 \<and> \<not> isPaused v1
                         then (let v3 = v1\<lparr>currentStateIndex := int (length (states v1)) - 1\<rparr>
                               in renderState v3 (currentStateIndex v3) True)
                         else v1)
               in (Added (length (states v2) - 1), v2)))"

definition addNewState :: "viewer \<Rightarrow> triple list \<Rightarrow> int \<Rightarrow> AppendResult \<times> viewer" where
  "addNewState v triples now = addGraphData v (triplesToGraph (typeDisplay v) triples) now"

subsection \<open>Runs of the viewer\<close>

text \<open>
  The states the viewer reaches from its constructor by new states, seeks, the live
  button and clicks on the timeline, where the tick slider hands \<open>seekToTick\<close> a tick of
  the history.
\<close>

inductive reachable :: "viewer \<Rightarrow> bool" where
  start: "reachable (newViewer now)"
| added: "reachable v \<Longrightarrow> reachable (snd (addGraphData v g now))"
| time_seek: "reachable v \<Longrightarrow> reachable (seekToTime v timeValue)"
| tick_seek: "reachable v \<Longrightarrow> 0 \<le> tickValue \<Longrightarrow> tickValue < int (length (states v))
              \<Longrightarrow> reachable (seekToTick v tickValue)"
| live: "reachable v \<Longrightarrow> reachable (goToLive v)"
| click: "reachable v \<Longrightarrow> reachable (onTimelineClick v)"

definition inRange :: "viewer \<Rightarrow> bool" where
  "inRange v = (0 \<le> currentStateIndex v \<and> currentStateIndex v < int (length (states v)))"

text \<open>
  Runs for the examples. Graphs of named nodes arrive at given clock values
  (milliseconds) in a viewer constructed at clock value 0; every one is new, and the
  live viewer renders it. \<open>shown names ts\<close> is the state such a run keeps of the graph
  that arrived at \<open>ts\<close> seconds.
\<close>

definition graph :: "string list \<Rightarrow> graphData" where
  "graph names = \<lparr>nodes = map (plainNode ''off'' []) names, links = []\<rparr>"

definition shown :: "string list \<Rightarrow> real \<Rightarrow> snapshot" where
  "shown names ts =
     \<lparr>nodes = nodes (graph names), links = links (graph names), timestamp = ts,
      inSimulation = True\<rparr>"

definition arrive :: "viewer \<Rightarrow> string list \<times> int \<Rightarrow> viewer" where
  "arrive v a = snd (addGraphData v (graph (fst a)) (snd a))"

definition runOf :: "(string list \<times> int) list \<Rightarrow> viewer" where
  "runOf arrivals = foldl arrive (newViewer 0) arrivals"

definition run5 :: viewer where
  "run5 = runOf [([''a''], 1000), ([''a'', ''b''], 2000), ([''a'', ''b'', ''c''], 3000),
                 ([''a'', ''b'', ''c'', ''d''], 4000),
                 ([''a'', ''b'', ''c'', ''d'', ''e''], 5000)]"

definition run3 :: viewer where
  "run3 = runOf [([''a''], 1000), ([''a'', ''b''], 2000), ([''a'', ''b'', ''c''], 3000)]"

definition run13 :: viewer where
  "run13 = runOf [([''a''], 1000), ([''a'', ''b''], 3000)]"

definition run01 :: viewer where
  "run01 = runOf [([''a''], 100), ([''a'', ''b''], 2100)]"

text \<open>Two states arrive, and the user drags the tick slider back to tick 0.\<close>

definition run2 :: viewer where
  "run2 = seekToTick (runOf [([''a''], 1000), ([''a'', ''b''], 2000)]) 0"

text \<open>
  What the viewer can do to \<open>v\<close> without \<open>goToLive\<close>: seeks, new states, clicks on the
  timeline and changes of the file path, in any number and order.
\<close>

inductive no_goToLive :: "viewer \<Rightarrow> viewer \<Rightarrow> bool" where
  same: "no_goToLive v v"
| tick: "no_goToLive v w \<Longrightarrow> no_goToLive v (seekToTick w tickValue)"
| time: "no_goToLive v w \<Longrightarrow> no_goToLive v (seekToTime w timeValue)"
| state: "no_goToLive v w \<Longrightarrow> no_goToLive v (snd (addGraphData w g now))"
| clicked: "no_goToLive v w \<Longrightarrow> no_goToLive v (onTimelineClick w)"
| path: "no_goToLive v w \<Longrightarrow> no_goToLive v (onRdfFilePathChange w p)"

text \<open>Invariants of the runs: the two flags are opposite, and the index is in the history.\<close>

definition flags_agree :: "viewer \<Rightarrow> bool" where
  "flags_agree v = (isPaused v = (\<not> isLive v))"

definition index_ok :: "viewer \<Rightarrow> bool" where
  "index_ok v = (if length (states v) = 0 then currentStateIndex v = 0 else inRange v)"

section \<open>The URI shortener\<close>

lemma shortenURI_examples:
  "shortenURI ''http://www.w3.org/1999/02/22-rdf-syntax-ns#type'' = ''type''"
  "shortenURI ''http://example.org/a'' = ''a''"
  "shortenURI ''http://example.org/b'' = ''b''"
  "shortenURI ''http://example.org/Person'' = ''Person''"
  "shortenURI ''http://example.org/knows'' = ''knows''"
  "shortenURI ''http://example.org/name'' = ''name''"
  "shortenURI ''Person'' = ''Person''"
  "shortenURI ''b'' = ''b''"
  by (simp_all add: shortenURI_def is_sep_def)

lemma takeWhile_snoc:
  "takeWhile P (xs @ [c]) =
     (if list_all P xs then xs @ (if P c then [c] else []) else takeWhile P xs)"
  by (induction xs) simp_all

lemma after_last_sep_Cons:
  "after_last_sep (c # cs) =
     (if list_ex is_sep cs then after_last_sep cs else if is_sep c then cs else c # cs)"
proof -
  have eq: "list_all (\<lambda>c. \<not> is_sep c) cs = (\<not> list_ex is_sep cs)"
    by (simp add: list_all_iff list_ex_iff)
  show ?thesis
    unfolding after_last_sep_def by (simp add: takeWhile_snoc eq)
qed

lemma regex_match_eq:
  "regex_match uri =
     (if has_sep uri \<and> after_last_sep uri \<noteq> [] then Some (after_last_sep uri) else None)"
proof (induction uri)
  case Nil
  show ?case by (simp add: has_sep_def)
next
  case (Cons c cs)
  show ?case
  proof (cases "list_ex is_sep cs")
    case True
    then have "match_at (c # cs) = None" by (auto simp: list_all_iff list_ex_iff)
    with True Cons show ?thesis by (simp add: has_sep_def after_last_sep_Cons)
  next
    case False
    then have nosep: "list_all (\<lambda>d. \<not> is_sep d) cs" by (auto simp: list_all_iff list_ex_iff)
    from False Cons have rm: "regex_match cs = None" by (simp add: has_sep_def)
    show ?thesis using False nosep rm
      by (auto simp: has_sep_def after_last_sep_Cons)
  qed
qed

text \<open>
  C9, as stated: for every string, \<open>shortenURI\<close> returns the substring after the last
  \<open>/\<close> or \<open>#\<close>, also when the string ends with a separator and that substring is
  empty. It fails on \<open>http://example.org/\<close>: the expression needs one character or more
  after the separator, finds no match, and the string is returned unchanged.
\<close>

theorem shortenURI_trailing_separator:
  "has_sep ''http://example.org/'' \<and>
   shorten_spec ''http://example.org/'' = [] \<and>
   shortenURI ''http://example.org/'' = ''http://example.org/''"
  by (simp add: shortenURI_def shorten_spec_def has_sep_def after_last_sep_def is_sep_def)

text \<open>
  C9, amended: \<open>shortenURI\<close> is a total function of its argument. It returns the
  substring after the last \<open>/\<close> or \<open>#\<close> when the string has a separator and that
  substring is not empty; it returns the string unchanged when the string has no separator
  or ends with one.
\<close>

theorem shortenURI_last_segment:
  "shortenURI uri =
     (if has_sep uri \<and> after_last_sep uri \<noteq> [] then after_last_sep uri else uri)"
  by (simp add: shortenURI_def regex_match_eq)

section \<open>The projection of triples\<close>

lemmas proj_defs = triplesToGraph_def example_triples_def name_triple_def
  literal_type_triple_def stmt_def iri_def lit_def rdf_type_def
  typePass_def buildPass_def ensureNode_def plainNode_def typeNode_def
  map_has_def map_get_def map_values_def Let_def

text \<open>
  C1: for the statements \<open>a rdf:type Person\<close> and \<open>a knows b\<close> the projection is, under
  \<open>'off'\<close>, the nodes \<open>a\<close> and \<open>b\<close> with no types and the one link \<open>a \<rightarrow> b\<close> labelled
  \<open>knows\<close>, with no node for \<open>Person\<close>; under \<open>'on'\<close> the same but for the types
  \<open>[Person]\<close> of \<open>a\<close>; under \<open>'nodes'\<close> there is also the node \<open>Person\<close>, marked as
  a type node and with no types, and the link \<open>a \<rightarrow> Person\<close> labelled \<open>type\<close>.
\<close>

theorem type_policy_shapes:
  "triplesToGraph ''off'' example_triples =
     \<lparr>nodes = [\<lparr>id_node = ''a'', label = ''a'', types = [], isType = False\<rparr>,
               \<lparr>id_node = ''b'', label = ''b'', types = [], isType = False\<rparr>],
      links = [\<lparr>source = ''a'', target = ''b'', predicate_link = ''knows''\<rparr>]\<rparr> \<and>
   triplesToGraph ''on'' example_triples =
     \<lparr>nodes = [\<lparr>id_node = ''a'', label = ''a'', types = [''Person''], isType = False\<rparr>,
               \<lparr>id_node = ''b'', label = ''b'', types = [], isType = False\<rparr>],
      links = [\<lparr>source = ''a'', target = ''b'', predicate_link = ''knows''\<rparr>]\<rparr> \<and>
   triplesToGraph ''nodes'' example_triples =
     \<lparr>nodes = [\<lparr>id_node = ''a'', label = ''a'', types = [], isType = False\<rparr>,
               \<lparr>id_node = ''Person'', label = ''Person'', types = [], isType = True\<rparr>,
               \<lparr>id_node = ''b'', label = ''b'', types = [], isType = False\<rparr>],
      links = [\<lparr>source = ''a'', target = ''Person'', predicate_link = ''type''\<rparr>,
               \<lparr>source = ''a'', target = ''b'', predicate_link = ''knows''\<rparr>]\<rparr>"
  by (simp add: proj_defs shortenURI_examples)

subsection \<open>The node map\<close>

lemma map_has_iff: "map_has m k = (k \<in> fst ` set m)"
  by (simp add: map_has_def map_of_eq_None_iff)

lemma keys_map_set: "fst ` set (map_set m k v) = insert k (fst ` set m)"
  by (induction m k v rule: map_set.induct) (simp_all add: insert_commute)

lemma set_map_set_subset: "set (map_set m k v) \<subseteq> insert (k, v) (set m)"
  by (induction m) (auto split: if_splits)

lemma keys_ensureNode: "fst ` set (ensureNode ns k n) = insert k (fst ` set ns)"
  by (auto simp: ensureNode_def keys_map_set map_has_iff)

lemma set_ensureNode_subset: "set (ensureNode ns k n) \<subseteq> insert (k, n) (set ns)"
  using set_map_set_subset [of ns k n] by (auto simp: ensureNode_def)

lemma keyed_ensureNode: "keyed ns \<Longrightarrow> id_node n = k \<Longrightarrow> keyed (ensureNode ns k n)"
  using set_ensureNode_subset [of ns k n] by (auto simp: keyed_def list_all_iff)

lemma keyed_ids: "keyed ns \<Longrightarrow> id_node ` set (map_values ns) = fst ` set ns"
  by (force simp: keyed_def list_all_iff map_values_def image_iff)

subsection \<open>Links point at nodes\<close>

lemma closed_links_buildPass:
  "closed_links acc \<Longrightarrow> closed_links (buildPass td nt t acc)"
  by (auto simp: closed_links_def buildPass_def Let_def keys_ensureNode list_all_iff
      plainNode_def typeNode_def intro!: keyed_ensureNode)

lemma closed_links_fold:
  "closed_links acc \<Longrightarrow> closed_links (fold (buildPass td nt) ts acc)"
  by (induction ts arbitrary: acc) (simp_all add: closed_links_buildPass)

text \<open>
  C10: under every type display setting and for every list of triples, the source and the
  target of every link of the projection are ids of nodes of the same projection.
\<close>

theorem links_reference_nodes:
  "l \<in> set (links (triplesToGraph td ts)) \<Longrightarrow>
     source l \<in> id_node ` set (nodes (triplesToGraph td ts)) \<and>
     target l \<in> id_node ` set (nodes (triplesToGraph td ts))"
proof -
  let ?nt = "fold (\<lambda>t m. typePass m t) ts []"
  let ?acc = "fold (buildPass td ?nt) ts ([], [])"
  assume l: "l \<in> set (links (triplesToGraph td ts))"
  have "closed_links ([], [])" by (simp add: closed_links_def keyed_def)
  then have c: "closed_links ?acc" by (rule closed_links_fold)
  then have ids: "id_node ` set (map_values (fst ?acc)) = fst ` set (fst ?acc)"
    by (simp add: closed_links_def keyed_ids)
  from l have "l \<in> set (snd ?acc)" by (simp add: triplesToGraph_def Let_def)
  with c have "source l \<in> fst ` set (fst ?acc) \<and> target l \<in> fst ` set (fst ?acc)"
    by (auto simp: closed_links_def list_all_iff)
  with ids show ?thesis by (simp add: triplesToGraph_def Let_def)
qed

theorem links_reference_nodes_witness:
  "\<lparr>source = ''a'', target = ''Person'', predicate_link = ''type''\<rparr>
     \<in> set (links (triplesToGraph ''nodes'' example_triples)) \<and>
   ''a'' \<in> id_node ` set (nodes (triplesToGraph ''nodes'' example_triples)) \<and>
   ''Person'' \<in> id_node ` set (nodes (triplesToGraph ''nodes'' example_triples))"
proof -
  have l: "\<lparr>source = ''a'', target = ''Person'', predicate_link = ''type''\<rparr>
     \<in> set (links (triplesToGraph ''nodes'' example_triples))"
    by (simp add: proj_defs shortenURI_examples)
  show ?thesis using l links_reference_nodes [OF l] by simp
qed

subsection \<open>Where nodes and links come from\<close>

lemma links_buildPass:
  "snd (buildPass td nt t acc) = snd acc @ (if emits td t then [linkOf t] else [])"
  by (simp add: buildPass_def Let_def emits_def linkOf_def)

lemma keys_buildPass:
  "fst ` set (fst (buildPass td nt t acc)) =
     fst ` set (fst acc) \<union> {shortenURI (value_term (subject t))} \<union>
     (if emits td t then {shortenURI (value_term (object t))} else {})"
  by (auto simp: buildPass_def Let_def emits_def keys_ensureNode)

lemma links_fold:
  "snd (fold (buildPass td nt) us acc) = snd acc @ map linkOf (filter (emits td) us)"
  by (induction us arbitrary: acc) (simp_all add: links_buildPass)

lemma keys_fold:
  "fst ` set (fst (fold (buildPass td nt) us acc)) =
     fst ` set (fst acc) \<union> (\<lambda>t. shortenURI (value_term (subject t))) ` set us \<union>
     (\<lambda>t. shortenURI (value_term (object t))) ` set (filter (emits td) us)"
proof (induction us arbitrary: acc)
  case Nil
  show ?case by simp
next
  case (Cons u us)
  show ?case unfolding fold_simps Cons.IH keys_buildPass by auto
qed

lemma links_triplesToGraph:
  "links (triplesToGraph td ts) = map linkOf (filter (emits td) ts)"
  by (simp add: triplesToGraph_def Let_def links_fold)

lemma keyed_fold: "keyed (fst acc) \<Longrightarrow> keyed (fst (fold (buildPass td nt) us acc))"
proof (induction us arbitrary: acc)
  case Nil
  then show ?case by simp
next
  case (Cons u us)
  have "keyed (fst (buildPass td nt u acc))"
    using Cons.prems
    by (auto simp: buildPass_def Let_def plainNode_def typeNode_def intro!: keyed_ensureNode)
  then show ?case by (simp add: Cons.IH)
qed

lemma ids_triplesToGraph:
  "id_node ` set (nodes (triplesToGraph td ts)) =
     (\<lambda>t. shortenURI (value_term (subject t))) ` set ts \<union>
     (\<lambda>t. shortenURI (value_term (object t))) ` set (filter (emits td) ts)"
proof -
  let ?nt = "fold (\<lambda>t m. typePass m t) ts []"
  let ?acc = "fold (buildPass td ?nt) ts ([], [])"
  have "keyed (fst ?acc)" by (rule keyed_fold) (simp add: keyed_def)
  then have "id_node ` set (map_values (fst ?acc)) = fst ` set (fst ?acc)" by (rule keyed_ids)
  then show ?thesis by (simp add: triplesToGraph_def Let_def keys_fold)
qed

text \<open>
  C8, as stated: whenever a statement has a literal object, no node of the projection has
  the literal's shortened value as its id. It fails for the one statement
  \<open>b name "b"\<close>: the node of the subject has the id \<open>b\<close>, which is the value of the
  literal. Ids are shortened labels, and a label can come from elsewhere.
\<close>

theorem literal_value_is_a_node_id:
  "termType (object name_triple) = Literal \<and>
   shortenURI (value_term (object name_triple)) = ''b'' \<and>
   ''b'' \<in> id_node ` set (nodes (triplesToGraph ''off'' [name_triple]))"
  by (simp add: proj_defs shortenURI_examples)

text \<open>
  C8, amended: under every type display setting and for every list of triples, every link
  of the projection is the link of a statement whose object the second pass handles
  (\<open>emits\<close>), and every node id is the shortened subject of a statement or the shortened
  object of such a statement; a statement with a literal object whose predicate does not
  shorten to \<open>type\<close> is none of these, so it gives no link and no node for its object.
\<close>

theorem literal_gives_no_link_no_node:
  "(\<forall>l\<in>set (links (triplesToGraph td ts)). \<exists>t\<in>set ts. emits td t \<and> l = linkOf t) \<and>
   (\<forall>n\<in>set (nodes (triplesToGraph td ts)). \<exists>t\<in>set ts.
       id_node n = shortenURI (value_term (subject t)) \<or>
       (emits td t \<and> id_node n = shortenURI (value_term (object t)))) \<and>
   (termType (object u) = Literal \<and> shortenURI (value_term (predicate u)) \<noteq> ''type''
      \<longrightarrow> \<not> emits td u)"
proof (intro conjI)
  show "\<forall>l\<in>set (links (triplesToGraph td ts)). \<exists>t\<in>set ts. emits td t \<and> l = linkOf t"
    by (auto simp: links_triplesToGraph)
  show "\<forall>n\<in>set (nodes (triplesToGraph td ts)). \<exists>t\<in>set ts.
       id_node n = shortenURI (value_term (subject t)) \<or>
       (emits td t \<and> id_node n = shortenURI (value_term (object t)))"
  proof
    fix n assume "n \<in> set (nodes (triplesToGraph td ts))"
    then have "id_node n \<in> id_node ` set (nodes (triplesToGraph td ts))" by simp
    then show "\<exists>t\<in>set ts. id_node n = shortenURI (value_term (subject t)) \<or>
       (emits td t \<and> id_node n = shortenURI (value_term (object t)))"
      unfolding ids_triplesToGraph by auto
  qed
  show "termType (object u) = Literal \<and> shortenURI (value_term (predicate u)) \<noteq> ''type''
      \<longrightarrow> \<not> emits td u"
    by (simp add: emits_def)
qed

text \<open>
  A type statement is handled before the test of the object's \<open>termType\<close>: under
  \<open>'nodes'\<close> its object becomes a node and a link also when it is a literal.
\<close>

lemma literal_type_object_under_nodes:
  "triplesToGraph ''nodes'' [literal_type_triple] =
     \<lparr>nodes = [\<lparr>id_node = ''a'', label = ''a'', types = [], isType = False\<rparr>,
               \<lparr>id_node = ''Person'', label = ''Person'', types = [], isType = True\<rparr>],
      links = [\<lparr>source = ''a'', target = ''Person'', predicate_link = ''type''\<rparr>]\<rparr>"
  by (simp add: proj_defs shortenURI_examples)

theorem literal_gives_no_link_no_node_witness:
  "\<lparr>source = ''a'', target = ''b'', predicate_link = ''knows''\<rparr>
     \<in> set (links (triplesToGraph ''off'' (example_triples @ [name_triple]))) \<and>
   (\<exists>t\<in>set (example_triples @ [name_triple]). emits ''off'' t \<and>
      \<lparr>source = ''a'', target = ''b'', predicate_link = ''knows''\<rparr> = linkOf t) \<and>
   \<lparr>id_node = ''b'', label = ''b'', types = [], isType = False\<rparr>
     \<in> set (nodes (triplesToGraph ''off'' (example_triples @ [name_triple]))) \<and>
   (\<exists>t\<in>set (example_triples @ [name_triple]).
      ''b'' = shortenURI (value_term (subject t)) \<or>
      (emits ''off'' t \<and> ''b'' = shortenURI (value_term (object t)))) \<and>
   termType (object name_triple) = Literal \<and>
   shortenURI (value_term (predicate name_triple)) \<noteq> ''type'' \<and>
   \<not> emits ''off'' name_triple"
proof -
  let ?ts = "example_triples @ [name_triple]"
  have l: "\<lparr>source = ''a'', target = ''b'', predicate_link = ''knows''\<rparr>
     \<in> set (links (triplesToGraph ''off'' ?ts))"
    by (simp add: proj_defs shortenURI_examples)
  have n: "\<lparr>id_node = ''b'', label = ''b'', types = [], isType = False\<rparr>
     \<in> set (nodes (triplesToGraph ''off'' ?ts))"
    by (simp add: proj_defs shortenURI_examples)
  have h: "termType (object name_triple) = Literal \<and>
     shortenURI (value_term (predicate name_triple)) \<noteq> ''type''"
    by (simp add: proj_defs shortenURI_examples)
  note T = literal_gives_no_link_no_node [of "''off''" ?ts name_triple]
  from T l have 1: "\<exists>t\<in>set ?ts. emits ''off'' t \<and>
      \<lparr>source = ''a'', target = ''b'', predicate_link = ''knows''\<rparr> = linkOf t"
    by blast
  from T n have 2: "\<exists>t\<in>set ?ts.
      id_node \<lparr>id_node = ''b'', label = ''b'', types = [], isType = False\<rparr>
        = shortenURI (value_term (subject t)) \<or>
      (emits ''off'' t \<and>
       id_node \<lparr>id_node = ''b'', label = ''b'', types = [], isType = False\<rparr>
         = shortenURI (value_term (object t)))"
    by blast
  from T h have 3: "\<not> emits ''off'' name_triple" by blast
  from 2 have o: "\<exists>t\<in>set ?ts. ''b'' = shortenURI (value_term (subject t)) \<or>
      (emits ''off'' t \<and> ''b'' = shortenURI (value_term (object t)))"
    by simp
  show ?thesis using l n h 1 o 3 by blast
qed

section \<open>Doubles\<close>

lemma bitlength_eq: "2 ^ k \<le> n \<Longrightarrow> n < 2 ^ Suc k \<Longrightarrow> bitlength n = Suc k"
proof (induction k arbitrary: n)
  case 0
  then have "n = 1" by simp
  then show ?case by (simp add: bitlength.simps)
next
  case (Suc k)
  from Suc.prems have "2 ^ k \<le> n div 2" "n div 2 < 2 ^ Suc k" by auto
  then have "bitlength (n div 2) = Suc k" by (rule Suc.IH)
  moreover from Suc.prems have "n \<noteq> 0" by auto
  ultimately show ?case by (subst bitlength.simps) simp
qed

lemma round_half_even_le: "x < of_int b \<Longrightarrow> round_half_even x \<le> b"
proof -
  assume "x < of_int b"
  then have "\<lfloor>x\<rfloor> < b" by (simp add: floor_less_iff)
  then show ?thesis by (auto simp: round_half_even_def Let_def)
qed

text \<open>
  A number of magnitude from \<open>2 ^ 52 / 2 ^ s\<close> up to \<open>2 ^ 53 / 2 ^ s\<close> is rounded to a
  multiple of \<open>1 / 2 ^ s\<close>.
\<close>

lemma round_double_small:
  assumes lo: "2 ^ 52 \<le> \<bar>x\<bar> * 2 ^ s" and hi: "\<bar>x\<bar> * 2 ^ s < 2 ^ 53" and s: "s \<le> 1073"
  shows "round_double x =
     (if x < 0 then - (of_int (round_half_even (\<bar>x\<bar> * 2 ^ s)) / 2 ^ s)
      else of_int (round_half_even (\<bar>x\<bar> * 2 ^ s)) / 2 ^ s)"
proof -
  define e where "e = 1074 - s"
  define y where "y = \<bar>x\<bar> * 2 ^ s"
  define n where "n = \<bar>x\<bar> * 2 ^ 1074"
  have e1: "1 \<le> e" and se: "s + e = 1074" using s by (simp_all add: e_def)
  have c: "(2::real) ^ 1074 = 2 ^ s * 2 ^ e"
    unfolding power_add [symmetric] se ..
  have n: "n = y * 2 ^ e" unfolding n_def y_def c by simp
  have nlo: "2 ^ (52 + e) \<le> n"
    unfolding n power_add using lo [folded y_def] by (simp add: mult_right_mono)
  have nhi: "n < 2 ^ (53 + e)"
    unfolding n power_add using hi [folded y_def] by (simp add: mult_strict_right_mono)
  have n0: "0 \<le> n" unfolding n_def by simp
  have "real (2 ^ (52 + e)) \<le> n" using nlo by simp
  then have flo: "2 ^ (52 + e) \<le> nat \<lfloor>n\<rfloor>" by (rule le_nat_floor)
  have "\<lfloor>n\<rfloor> < 2 ^ (53 + e)" using nhi by (simp add: floor_less_iff)
  moreover have "0 \<le> \<lfloor>n\<rfloor>" using n0 by simp
  ultimately have fhi: "nat \<lfloor>n\<rfloor> < 2 ^ Suc (52 + e)"
    by (simp add: nat_less_iff)
  have b: "bitlength (nat \<lfloor>n\<rfloor>) = Suc (52 + e)" using flo fhi by (rule bitlength_eq)
  have big: "\<not> n < 2 ^ 53"
  proof -
    have "(2::real) ^ 53 \<le> 2 ^ (52 + e)" using e1 by (intro power_increasing) simp_all
    with nlo show ?thesis by linarith
  qed
  have q: "n / 2 ^ e = y" unfolding n by simp
  have r: "(of_int (round_half_even y) :: real) * 2 ^ e / 2 ^ 1074 =
      of_int (round_half_even y) / 2 ^ s"
    by (simp only: c) simp
  have "y < of_int (2 ^ 53)" using hi [folded y_def] by simp
  then have "round_half_even y \<le> 2 ^ 53" by (rule round_half_even_le)
  then have "(of_int (round_half_even y) :: real) \<le> 2 ^ 53"
    by (metis of_int_le_iff of_int_numeral of_int_power)
  moreover have "(1::real) \<le> 2 ^ s" by simp
  ultimately have "of_int (round_half_even y) / 2 ^ s \<le> (2::real) ^ 53"
    by (smt (verit) divide_le_eq_1_pos frac_le zero_less_power div_by_1 zero_le_power)
  moreover have "(2::real) ^ 53 < 2 ^ 1024" by (intro power_strict_increasing) simp_all
  ultimately have sat: "\<not> (2::real) ^ 1024 \<le> of_int (round_half_even y) / 2 ^ s"
    by linarith
  have "round_double x =
     (let ee = (if n < 2 ^ 53 then 0 else bitlength (nat \<lfloor>n\<rfloor>) - 53);
          r = of_int (round_half_even (n / 2 ^ ee)) * 2 ^ ee / 2 ^ 1074;
          m = (if 2 ^ 1024 \<le> r then 2 ^ 1024 else r)
      in if x < 0 then - m else m)"
    unfolding round_double_def n_def Let_def ..
  also have "(if n < 2 ^ 53 then 0 else bitlength (nat \<lfloor>n\<rfloor>) - 53) = e"
    using big b by simp
  finally show ?thesis
    unfolding Let_def q r using sat by (simp only: if_False y_def)
qed

text \<open>The numbers of the examples.\<close>

lemma round_double_0: "round_double 0 = 0"
  by (simp add: round_double_def round_half_even_def)

lemma round_double_1: "round_double 1 = 1" "round_double (- 1) = - 1"
  by (subst round_double_small [where s = 52], simp_all add: round_half_even_def)+

lemma round_double_2: "round_double 2 = 2" "round_double (- 2) = - 2"
  "round_double 3 = 3"
  by (subst round_double_small [where s = 51], simp_all add: round_half_even_def)+

lemma round_double_4: "round_double 4 = 4" "round_double 5 = 5"
  by (subst round_double_small [where s = 50], simp_all add: round_half_even_def)+

lemma round_double_tenths:
  "round_double (1 / 10) = 3602879701896397 / 2 ^ 55"
  "round_double (11 / 10) = 2476979795053773 / 2 ^ 51"
  "round_double (21 / 10) = 4728779608739021 / 2 ^ 51"
  by (subst round_double_small [where s = 56], simp_all add: round_half_even_def,
      subst round_double_small [where s = 52], simp_all add: round_half_even_def,
      subst round_double_small [where s = 51], simp_all add: round_half_even_def)

text \<open>The double of 0.1 less the double of 1.1, which is 1 and 3 / 2 ^ 55 below zero.\<close>

lemma round_double_tenth_difference:
  "3602879701896397 / 2 ^ 55 - 2476979795053773 / 2 ^ 51
     = - (36028797018963971 / 36028797018963968 :: real)"
  "round_double (- (36028797018963971 / 36028797018963968)) = - 1"
  by (simp, subst round_double_small [where s = 52], simp_all add: round_half_even_def)

lemmas round_double_values = round_double_0 round_double_1 round_double_2 round_double_4

section \<open>The timeline\<close>

lemmas op_defs = seekToTick_def updateLiveStatus_def renderState_def goToLive_def
  onTimelineClick_def mode_def maxTick_def Let_def

lemmas run_defs = runOf_def arrive_def addGraphData_def sameJSON_def newViewer_def
  graph_def shown_def plainNode_def

lemma states_updateLiveStatus [simp]: "states (updateLiveStatus v) = states v"
  by (simp add: updateLiveStatus_def Let_def)

lemma length_renderState [simp]: "length (states (renderState v i a)) = length (states v)"
  by (simp add: renderState_def Let_def)

lemma states_renderState_Nil [simp]: "(states (renderState v i a) = []) = (states v = [])"
  using length_renderState [of v i a] by (simp only: length_0_conv [symmetric])

lemma index_updateLiveStatus [simp]:
  "currentStateIndex (updateLiveStatus v) = currentStateIndex v"
  by (simp add: updateLiveStatus_def Let_def)

lemma index_renderState [simp]: "currentStateIndex (renderState v i a) = currentStateIndex v"
  by (simp add: renderState_def Let_def)

lemma flags_renderState [simp]:
  "isLive (renderState v i a) = isLive v" "isPaused (renderState v i a) = isPaused v"
  by (simp_all add: renderState_def Let_def)

lemma flags_updateLiveStatus:
  "isLive (updateLiveStatus v) = (currentStateIndex v = maxTick v \<and> \<not> isPaused v)"
  "isPaused (updateLiveStatus v) = (\<not> (currentStateIndex v = maxTick v \<and> \<not> isPaused v))"
  by (simp_all add: updateLiveStatus_def Let_def maxTick_def)

lemma length_seekToTime [simp]: "length (states (seekToTime v t)) = length (states v)"
  by (simp add: seekToTime_def Let_def)

lemma length_seekToTick [simp]: "length (states (seekToTick v t)) = length (states v)"
  by (simp add: seekToTick_def Let_def)

lemma length_goToLive [simp]: "length (states (goToLive v)) = length (states v)"
  by (simp add: goToLive_def Let_def)

lemma states_onTimelineClick [simp]: "states (onTimelineClick v) = states v"
  by (simp add: onTimelineClick_def Let_def)

lemma run5_eq:
  "run5 = (newViewer 0)
     \<lparr>states := [shown [''a''] 1, shown [''a'', ''b''] 2, shown [''a'', ''b'', ''c''] 3,
                 shown [''a'', ''b'', ''c'', ''d''] 4,
                 shown [''a'', ''b'', ''c'', ''d'', ''e''] 5],
      currentStateIndex := 4, lastRenderedIndex := 4,
      renderCalls := [(0, True), (1, True), (2, True), (3, True), (4, True)]\<rparr>"
  by (simp add: run5_def run_defs op_defs round_double_values)

lemma run3_eq:
  "run3 = (newViewer 0)
     \<lparr>states := [shown [''a''] 1, shown [''a'', ''b''] 2, shown [''a'', ''b'', ''c''] 3],
      currentStateIndex := 2, lastRenderedIndex := 2,
      renderCalls := [(0, True), (1, True), (2, True)]\<rparr>"
  by (simp add: run3_def run_defs op_defs round_double_values)

lemma run13_eq:
  "run13 = (newViewer 0)
     \<lparr>states := [shown [''a''] 1, shown [''a'', ''b''] 3],
      currentStateIndex := 1, lastRenderedIndex := 1,
      renderCalls := [(0, True), (1, True)]\<rparr>"
  by (simp add: run13_def run_defs op_defs round_double_values)

lemma run2_eq:
  "run2 = (newViewer 0)
     \<lparr>states := [shown [''a''] 1, shown [''a'', ''b''] 2],
      currentStateIndex := 0, lastRenderedIndex := 0, isLive := False, isPaused := True,
      renderCalls := [(0, True), (1, True), (0, False)]\<rparr>"
  by (simp add: run2_def run_defs op_defs round_double_values)

lemma run01_eq:
  "run01 = (newViewer 0)
     \<lparr>states := [shown [''a''] (3602879701896397 / 2 ^ 55),
                 shown [''a'', ''b''] (4728779608739021 / 2 ^ 51)],
      currentStateIndex := 1, lastRenderedIndex := 1,
      renderCalls := [(0, True), (1, True)]\<rparr>"
  by (simp add: run01_def run_defs op_defs round_double_tenths)

lemmas ex_defs = run5_eq run3_eq run13_eq run2_eq newViewer_def shown_def graph_def
  plainNode_def

lemma reachable_foldl: "reachable v \<Longrightarrow> reachable (foldl arrive v arrivals)"
  by (induction arrivals arbitrary: v) (simp_all add: arrive_def reachable.added)

lemma reachable_runOf: "reachable (runOf arrivals)"
  unfolding runOf_def by (rule reachable_foldl) (rule reachable.start)

lemma reachable_run2: "reachable run2"
proof -
  let ?v = "runOf [([''a''], 1000), ([''a'', ''b''], 2000)]"
  have "length (states ?v) = 2" by (simp add: run_defs op_defs)
  then have "reachable (seekToTick ?v 0)"
    by (intro reachable.tick_seek reachable_runOf) simp_all
  then show ?thesis by (simp add: run2_def)
qed

subsection \<open>Seeking to a tick\<close>

text \<open>
  C3, as stated: \<open>seekToTick\<close> clamps its argument to the ticks of the history, so that
  on a history of five states \<open>seekToTick(999)\<close> ends at index 4 in live mode. It fails
  on a live viewer at tick 4 of five states: the index becomes 999 and the viewer is
  paused.
\<close>

theorem seekToTick_999_is_not_clamped:
  "length (states run5) = 5 \<and>
   mode run5 = Live \<and>
   currentStateIndex (seekToTick run5 999) = 999 \<and>
   currentStateIndex (seekToTick run5 999) \<noteq> 4 \<and>
   mode (seekToTick run5 999) = Paused \<and>
   mode (seekToTick run5 999) \<noteq> Live"
  by (simp add: op_defs ex_defs)

text \<open>
  C3, amended: \<open>seekToTick\<close> stores its argument as the index as it is, with no
  clamping. On a history of five states \<open>seekToTick(999)\<close> ends at index 999 in paused
  mode, \<open>seekToTick(2)\<close> ends in paused mode, and \<open>seekToTick(4)\<close> ends at index 4, in
  live mode when the viewer was not paused before.
\<close>

theorem seekToTick_stores_tick:
  "currentStateIndex (seekToTick v tickValue) = tickValue \<and>
   (length (states v) = 5 \<longrightarrow>
      currentStateIndex (seekToTick v 999) = 999 \<and> mode (seekToTick v 999) = Paused \<and>
      mode (seekToTick v 2) = Paused \<and>
      currentStateIndex (seekToTick v 4) = 4 \<and>
      (mode (seekToTick v 4) = Live \<longleftrightarrow> \<not> isPaused v))"
  by (simp add: op_defs)

theorem seekToTick_stores_tick_witness:
  "length (states run5) = 5 \<and>
   currentStateIndex (seekToTick run5 999) = 999 \<and>
   mode (seekToTick run5 999) = Paused \<and>
   mode (seekToTick run5 2) = Paused \<and>
   currentStateIndex (seekToTick run5 4) = 4 \<and>
   mode (seekToTick run5 4) = Live"
proof -
  have h: "length (states run5) = 5" by (simp add: ex_defs)
  have p: "\<not> isPaused run5" by (simp add: ex_defs)
  show ?thesis
    using h p seekToTick_stores_tick [of run5 4] by simp
qed

subsection \<open>The mode after a seek\<close>

lemma mode_seekToTime:
  "states v \<noteq> [] \<Longrightarrow>
   mode (seekToTime v tv) = Live \<longleftrightarrow> currentStateIndex (seekToTime v tv) = maxTick v \<and> \<not> isPaused v"
  by (simp add: seekToTime_def Let_def mode_def flags_updateLiveStatus maxTick_def)

lemma flags_agree_updateLiveStatus: "flags_agree (updateLiveStatus v)"
  by (simp add: flags_agree_def flags_updateLiveStatus)

lemma flags_agree_addGraphData: "flags_agree v \<Longrightarrow> flags_agree (snd (addGraphData v g now))"
  by (simp add: flags_agree_def addGraphData_def Let_def)

lemma reachable_flags_agree: "reachable v \<Longrightarrow> flags_agree v"
proof (induction rule: reachable.induct)
  case (start now)
  show ?case by (simp add: flags_agree_def newViewer_def)
next
  case (added v g now)
  then show ?case by (simp add: flags_agree_addGraphData)
next
  case (time_seek v timeValue)
  then show ?case by (simp add: seekToTime_def Let_def flags_agree_def flags_updateLiveStatus)
next
  case (tick_seek v tickValue)
  then show ?case by (simp add: seekToTick_def Let_def flags_agree_def flags_updateLiveStatus)
next
  case (live v)
  then show ?case by (simp add: goToLive_def Let_def flags_agree_def flags_updateLiveStatus)
next
  case (click v)
  then show ?case by (simp add: onTimelineClick_def Let_def flags_agree_def flags_updateLiveStatus)
qed

text \<open>
  C4, as stated: after a seek the viewer is live exactly when the tick is the newest one,
  whatever the mode before, so that a paused viewer that seeks to the newest tick turns
  live. It fails on five states: a live viewer at tick 4 seeks to tick 2 and is paused;
  it then seeks to tick 4, the newest, and is still paused.
\<close>

theorem paused_seek_to_newest_stays_paused:
  "states run5 \<noteq> [] \<and>
   mode (seekToTick run5 2) = Paused \<and>
   maxTick (seekToTick run5 2) = 4 \<and>
   mode (seekToTick (seekToTick run5 2) 4) = Paused"
  by (simp add: op_defs ex_defs)

text \<open>
  Only \<open>updateLiveStatus\<close>, \<open>goToLive\<close> and the click handler assign the two flags; a
  new state and a change of the file path leave them.
\<close>

lemma mode_addGraphData: "mode (snd (addGraphData v g now)) = mode v"
  by (simp add: addGraphData_def Let_def mode_def)

lemma isPaused_addGraphData: "isPaused (snd (addGraphData v g now)) = isPaused v"
  by (simp add: addGraphData_def Let_def)

lemma mode_onTimelineClick: "mode (onTimelineClick v) = Paused"
  by (simp add: onTimelineClick_def mode_def flags_updateLiveStatus)

lemma isPaused_onTimelineClick: "isPaused v \<Longrightarrow> isPaused (onTimelineClick v)"
  by (simp add: onTimelineClick_def flags_updateLiveStatus)

lemma isPaused_seek:
  "isPaused v \<Longrightarrow> isPaused (seekToTick v t)" "isPaused v \<Longrightarrow> isPaused (seekToTime v tv)"
  by (simp_all add: seekToTick_def seekToTime_def Let_def flags_updateLiveStatus)

lemma no_goToLive_isPaused: "no_goToLive v w \<Longrightarrow> isPaused v \<Longrightarrow> isPaused w"
proof (induction rule: no_goToLive.induct)
  case (same v)
  then show ?case .
next
  case (tick v w tickValue)
  then show ?case by (simp add: isPaused_seek)
next
  case (time v w timeValue)
  then show ?case by (simp add: isPaused_seek)
next
  case (state v w g now)
  then show ?case by (simp add: isPaused_addGraphData)
next
  case (clicked v w)
  then show ?case by (simp add: isPaused_onTimelineClick)
next
  case (path v w p)
  then show ?case by (simp add: onRdfFilePathChange_def)
qed

text \<open>
  C4, amended: after \<open>seekToTick(t)\<close>, and after \<open>seekToTime\<close> on a history that is not
  empty with \<open>t\<close> the tick it selects, the viewer is live exactly when \<open>t\<close> is the
  newest tick and the viewer was not paused before the seek. A paused viewer stays paused
  on every seek, also one to the newest tick, and in every run of the viewer paused mode
  is the flag \<open>isPaused\<close>. A new state and a change of the file path leave the mode, a
  click on the timeline ends in paused mode, and so a paused viewer is paused after any
  number of seeks, new states, clicks and changes of the file path; \<open>goToLive\<close> on a
  history that is not empty ends in live mode.
\<close>

theorem seek_mode:
  "(mode (seekToTick v t) = Live \<longleftrightarrow> t = maxTick v \<and> \<not> isPaused v) \<and>
   (states v \<noteq> [] \<longrightarrow>
      (mode (seekToTime v tv) = Live \<longleftrightarrow>
         currentStateIndex (seekToTime v tv) = maxTick v \<and> \<not> isPaused v)) \<and>
   (isPaused v \<longrightarrow> mode (seekToTick v t) = Paused \<and> mode (seekToTime v tv) = Paused) \<and>
   (reachable v \<longrightarrow> (isPaused v \<longleftrightarrow> mode v = Paused)) \<and>
   (states v \<noteq> [] \<longrightarrow> mode (goToLive v) = Live) \<and>
   mode (snd (addGraphData v g now)) = mode v \<and>
   mode (onTimelineClick v) = Paused \<and>
   mode (onRdfFilePathChange v p) = mode v \<and>
   (isPaused v \<and> no_goToLive v w \<longrightarrow> mode w = Paused)"
proof (intro conjI)
  show "mode (seekToTick v t) = Live \<longleftrightarrow> t = maxTick v \<and> \<not> isPaused v"
    by (simp add: op_defs)
  show "states v \<noteq> [] \<longrightarrow>
      (mode (seekToTime v tv) = Live \<longleftrightarrow>
         currentStateIndex (seekToTime v tv) = maxTick v \<and> \<not> isPaused v)"
    by (simp add: mode_seekToTime)
  show "isPaused v \<longrightarrow> mode (seekToTick v t) = Paused \<and> mode (seekToTime v tv) = Paused"
    by (simp add: seekToTime_def seekToTick_def Let_def mode_def flags_updateLiveStatus)
  show "reachable v \<longrightarrow> (isPaused v \<longleftrightarrow> mode v = Paused)"
    using reachable_flags_agree [of v] by (auto simp: flags_agree_def mode_def)
  show "states v \<noteq> [] \<longrightarrow> mode (goToLive v) = Live"
    by (simp add: goToLive_def Let_def mode_def flags_updateLiveStatus maxTick_def)
  show "mode (snd (addGraphData v g now)) = mode v"
    by (rule mode_addGraphData)
  show "mode (onTimelineClick v) = Paused"
    by (rule mode_onTimelineClick)
  show "mode (onRdfFilePathChange v p) = mode v"
    by (simp add: onRdfFilePathChange_def mode_def)
  show "isPaused v \<and> no_goToLive v w \<longrightarrow> mode w = Paused"
    using no_goToLive_isPaused [of v w] by (auto simp: mode_def)
qed

theorem seek_mode_witness:
  "states run2 \<noteq> [] \<and> isPaused run2 \<and> reachable run2 \<and> mode run2 = Paused \<and>
   maxTick run2 = 1 \<and>
   mode (seekToTick run2 1) = Paused \<and>
   currentStateIndex (seekToTime run2 2) = maxTick run2 \<and>
   mode (seekToTime run2 2) = Paused \<and>
   mode (goToLive run2) = Live \<and>
   mode (snd (addGraphData run2 (graph [''a'', ''b'', ''c'']) 3000)) = Paused \<and>
   mode (onTimelineClick run2) = Paused \<and>
   mode (onRdfFilePathChange run2 ''/other.rdf'') = Paused \<and>
   no_goToLive run2
     (seekToTick (snd (addGraphData (onTimelineClick run2) (graph [''a'', ''b'', ''c'']) 3000))
        2) \<and>
   mode (seekToTick (snd (addGraphData (onTimelineClick run2) (graph [''a'', ''b'', ''c''])
        3000)) 2) = Paused"
proof -
  let ?w = "seekToTick
    (snd (addGraphData (onTimelineClick run2) (graph [''a'', ''b'', ''c'']) 3000)) 2"
  have h: "states run2 \<noteq> []" "isPaused run2"
    by (simp_all add: ex_defs)
  have r: "reachable run2" by (rule reachable_run2)
  have m: "maxTick run2 = 1" by (simp add: maxTick_def ex_defs)
  have k: "currentStateIndex (seekToTime run2 2) = 1"
    by (simp add: seekToTime_def Let_def ex_defs seekLoop.simps abs_diff_def
        round_double_values)
  have n: "no_goToLive run2 ?w"
    by (intro no_goToLive.tick no_goToLive.state no_goToLive.clicked no_goToLive.same)
  show ?thesis
    using h r m k n
      seek_mode [of run2 1 2 "graph [''a'', ''b'', ''c'']" 3000 "''/other.rdf''" ?w]
    by simp
qed

subsection \<open>The index stays in the history\<close>

lemma inRange_seekToTick: "inRange (seekToTick v k) \<longleftrightarrow> 0 \<le> k \<and> k < int (length (states v))"
  by (simp add: inRange_def seekToTick_def Let_def)

lemma inRange_goToLive: "states v \<noteq> [] \<Longrightarrow> inRange (goToLive v)"
  by (simp add: inRange_def goToLive_def Let_def)

lemma seekLoop_bound:
  "closestIndex < length sts \<Longrightarrow> seekLoop sts t i closestIndex minDiff < length sts"
proof (induction sts t i closestIndex minDiff rule: seekLoop.induct)
  case (1 sts timeValue i closestIndex minDiff)
  show ?case
    using "1.IH" "1.prems" by (subst seekLoop.simps) (simp add: Let_def)
qed

lemma inRange_seekToTime: "states v \<noteq> [] \<Longrightarrow> inRange (seekToTime v t)"
  by (simp add: inRange_def seekToTime_def Let_def seekLoop_bound)

lemma inRange_addGraphData: "inRange v \<Longrightarrow> inRange (snd (addGraphData v g now))"
  by (auto simp: inRange_def addGraphData_def Let_def)

lemma index_ok_addGraphData: "index_ok v \<Longrightarrow> index_ok (snd (addGraphData v g now))"
  by (auto simp: index_ok_def inRange_def addGraphData_def Let_def split: if_splits)

lemma reachable_index_ok: "reachable v \<Longrightarrow> index_ok v"
proof (induction rule: reachable.induct)
  case (start now)
  show ?case by (simp add: index_ok_def newViewer_def)
next
  case (added v g now)
  then show ?case by (simp add: index_ok_addGraphData)
next
  case (time_seek v timeValue)
  show ?case
  proof (cases "states v = []")
    case True
    with time_seek.IH show ?thesis by (simp add: seekToTime_def)
  next
    case False
    then show ?thesis by (simp add: index_ok_def inRange_seekToTime)
  qed
next
  case (tick_seek v tickValue)
  then have "states v \<noteq> []" by auto
  with tick_seek show ?case by (simp add: index_ok_def inRange_seekToTick)
next
  case (live v)
  show ?case
  proof (cases "states v = []")
    case True
    with live.IH show ?thesis by (simp add: goToLive_def)
  next
    case False
    then show ?thesis by (simp add: index_ok_def inRange_goToLive)
  qed
next
  case (click v)
  then show ?case by (auto simp: index_ok_def inRange_def onTimelineClick_def split: if_splits)
qed

text \<open>
  C5, as stated: whenever the history is not empty the index is a tick of it, and
  \<open>seekToTick\<close>, \<open>seekToTime\<close>, \<open>goToLive\<close> and the advance on a new state all keep
  it so. It fails for \<open>seekToTick\<close>: on five states with the index at tick 4,
  \<open>seekToTick(7)\<close> leaves the index at 7.
\<close>

theorem seekToTick_leaves_the_history:
  "states run5 \<noteq> [] \<and> inRange run5 \<and>
   currentStateIndex (seekToTick run5 7) = 7 \<and>
   length (states (seekToTick run5 7)) = 5 \<and>
   \<not> inRange (seekToTick run5 7)"
  by (simp add: op_defs ex_defs inRange_def)

text \<open>
  C5, amended: in every state the viewer reaches from its constructor by new states,
  \<open>seekToTime\<close>, \<open>goToLive\<close>, clicks on the timeline and \<open>seekToTick\<close> with a tick of
  the history, the index is a tick of the history when the history is not empty. On a
  history that is not empty \<open>seekToTime\<close> and \<open>goToLive\<close> end with the index in the
  history; a new state, with or without the advance, keeps it there; and \<open>seekToTick(t)\<close>
  ends with the index in the history exactly when \<open>t\<close> is a tick of it.
\<close>

theorem playhead_in_range:
  "(reachable v \<and> states v \<noteq> [] \<longrightarrow> inRange v) \<and>
   (states v \<noteq> [] \<longrightarrow> inRange (seekToTime v timeValue) \<and> inRange (goToLive v)) \<and>
   (inRange v \<longrightarrow> inRange (snd (addGraphData v g now))) \<and>
   (inRange (seekToTick v tickValue) \<longleftrightarrow> 0 \<le> tickValue \<and> tickValue < int (length (states v)))"
proof (intro conjI)
  show "reachable v \<and> states v \<noteq> [] \<longrightarrow> inRange v"
    using reachable_index_ok [of v] by (auto simp: index_ok_def)
  show "states v \<noteq> [] \<longrightarrow> inRange (seekToTime v timeValue) \<and> inRange (goToLive v)"
    by (simp add: inRange_seekToTime inRange_goToLive)
  show "inRange v \<longrightarrow> inRange (snd (addGraphData v g now))"
    by (simp add: inRange_addGraphData)
  show "inRange (seekToTick v tickValue) \<longleftrightarrow> 0 \<le> tickValue \<and> tickValue < int (length (states v))"
    by (rule inRange_seekToTick)
qed

theorem playhead_in_range_witness:
  "reachable run2 \<and> states run2 \<noteq> [] \<and> inRange run2 \<and>
   inRange (seekToTime run2 2) \<and> inRange (goToLive run2) \<and>
   inRange (snd (addGraphData run2 (graph [''a'', ''b'', ''c'']) 3000)) \<and>
   inRange (seekToTick run2 1)"
proof -
  have h: "reachable run2" "states run2 \<noteq> []"
    by (rule reachable_run2) (simp add: ex_defs)
  have t: "(0::int) \<le> 1 \<and> 1 < int (length (states run2))" by (simp add: ex_defs)
  show ?thesis
    using h t playhead_in_range [of run2 2 "graph [''a'', ''b'', ''c'']" 3000 1] by simp
qed

text \<open>
  The handler of the file path empties the history and leaves the index: a viewer paused
  at tick 2 has the index 2 on the history of one state that follows.
\<close>

lemma index_after_path_change:
  "length (states (snd (addGraphData
      (onRdfFilePathChange (seekToTick run5 2) ''/other.rdf'')
      (graph [''x'']) 9000))) = 1 \<and>
   currentStateIndex (snd (addGraphData
      (onRdfFilePathChange (seekToTick run5 2) ''/other.rdf'')
      (graph [''x'']) 9000)) = 2"
  by (simp add: addGraphData_def sameJSON_def onRdfFilePathChange_def op_defs ex_defs)

subsection \<open>Seeking to a time\<close>

lemma seekLoop_min:
  assumes "closestIndex < i" "i \<le> length sts"
    and "minDiff = abs_diff (timestamp (sts ! closestIndex)) t"
    and "\<forall>j<i. minDiff \<le> abs_diff (timestamp (sts ! j)) t"
    and "\<forall>j<closestIndex. minDiff < abs_diff (timestamp (sts ! j)) t"
  shows "let k = seekLoop sts t i closestIndex minDiff in
           k < length sts \<and>
           (\<forall>j<length sts.
              abs_diff (timestamp (sts ! k)) t \<le> abs_diff (timestamp (sts ! j)) t) \<and>
           (\<forall>j<k. abs_diff (timestamp (sts ! k)) t < abs_diff (timestamp (sts ! j)) t)"
  using assms
proof (induction sts t i closestIndex minDiff rule: seekLoop.induct)
  case (1 sts timeValue i closestIndex minDiff)
  show ?case
  proof (cases "i < length sts")
    case False
    with "1.prems" have "i = length sts" by simp
    with False "1.prems" show ?thesis
      by (subst seekLoop.simps) (simp add: Let_def)
  next
    case True
    let ?diff = "abs_diff (timestamp (sts ! i)) timeValue"
    show ?thesis
    proof (cases "?diff < minDiff")
      case less: True
      have a: "\<forall>j<i + 1. ?diff \<le> abs_diff (timestamp (sts ! j)) timeValue"
        using less "1.prems"(4) by (auto simp: less_Suc_eq)
      have b: "\<forall>j<i. ?diff < abs_diff (timestamp (sts ! j)) timeValue"
        using less "1.prems"(4) by fastforce
      have "let k = seekLoop sts timeValue (i + 1) i ?diff in
           k < length sts \<and>
           (\<forall>j<length sts.
              abs_diff (timestamp (sts ! k)) timeValue
                \<le> abs_diff (timestamp (sts ! j)) timeValue) \<and>
           (\<forall>j<k. abs_diff (timestamp (sts ! k)) timeValue
                < abs_diff (timestamp (sts ! j)) timeValue)"
        using True less a b by (intro "1.IH"(1)) simp_all
      then show ?thesis using True less by (subst seekLoop.simps) (simp add: Let_def)
    next
      case geq: False
      have a: "\<forall>j<i + 1. minDiff \<le> abs_diff (timestamp (sts ! j)) timeValue"
        using geq "1.prems"(4) by (auto simp: less_Suc_eq)
      have "let k = seekLoop sts timeValue (i + 1) closestIndex minDiff in
           k < length sts \<and>
           (\<forall>j<length sts.
              abs_diff (timestamp (sts ! k)) timeValue
                \<le> abs_diff (timestamp (sts ! j)) timeValue) \<and>
           (\<forall>j<k. abs_diff (timestamp (sts ! k)) timeValue
                < abs_diff (timestamp (sts ! j)) timeValue)"
        using True geq a "1.prems" by (intro "1.IH"(2)) simp_all
      then show ?thesis using True geq by (subst seekLoop.simps) (simp add: Let_def)
    qed
  qed
qed

text \<open>
  C7, as stated: on a history that is not empty, \<open>seekToTime(t)\<close> selects the tick whose
  timestamp has the least absolute difference to \<open>t\<close>. It fails for two states that
  arrive 100 and 2100 milliseconds after the start, and the time slider at 1.1: the
  timestamps are the doubles of 0.1 and 2.1, the time is the double of 1.1, and tick 1 is
  the nearer one, at the distance 1 exactly; but the difference of tick 0 is rounded to 1
  as well, it is not passed by the later one, and the index is 0.
\<close>

theorem seekToTime_keeps_farther_tick:
  "map timestamp (states run01) = [round_double (1 / 10), round_double (21 / 10)] \<and>
   currentStateIndex (seekToTime run01 (round_double (11 / 10))) = 0 \<and>
   \<bar>timestamp (states run01 ! 1) - round_double (11 / 10)\<bar>
     < \<bar>timestamp (states run01 ! 0) - round_double (11 / 10)\<bar>"
  by (simp add: run01_eq newViewer_def shown_def seekToTime_def seekLoop.simps op_defs
      abs_diff_def round_double_tenths round_double_tenth_difference round_double_values)

text \<open>
  C7, amended: on a history that is not empty, \<open>seekToTime(t)\<close> sets the index to a tick
  whose computed difference \<open>Math.abs(timestamp - t)\<close>, a double, is as small as that of
  any tick, and smaller than that of every earlier tick (the first minimum from tick 0
  upward); for the timestamps 1 and 3, \<open>seekToTime(2)\<close> selects tick 0.
\<close>

theorem seekToTime_least_computed_difference:
  "(states v \<noteq> [] \<longrightarrow>
     (\<exists>k<length (states v). currentStateIndex (seekToTime v t) = int k \<and>
        (\<forall>j<length (states v).
           abs_diff (timestamp (states v ! k)) t \<le> abs_diff (timestamp (states v ! j)) t) \<and>
        (\<forall>j<k. abs_diff (timestamp (states v ! k)) t
                  < abs_diff (timestamp (states v ! j)) t))) \<and>
   (map timestamp (states v) = [1, 3] \<longrightarrow> currentStateIndex (seekToTime v 2) = 0)"
proof (intro conjI impI)
  assume ne: "states v \<noteq> []"
  let ?sts = "states v"
  let ?k = "seekLoop ?sts t 1 0 (abs_diff (timestamp (?sts ! 0)) t)"
  have "let k = ?k in
           k < length ?sts \<and>
           (\<forall>j<length ?sts.
              abs_diff (timestamp (?sts ! k)) t \<le> abs_diff (timestamp (?sts ! j)) t) \<and>
           (\<forall>j<k. abs_diff (timestamp (?sts ! k)) t < abs_diff (timestamp (?sts ! j)) t)"
    using ne by (intro seekLoop_min) (simp_all add: Suc_le_eq)
  moreover have "currentStateIndex (seekToTime v t) = int ?k"
    using ne by (simp add: seekToTime_def Let_def)
  ultimately show "\<exists>k<length (states v). currentStateIndex (seekToTime v t) = int k \<and>
        (\<forall>j<length (states v).
           abs_diff (timestamp (states v ! k)) t \<le> abs_diff (timestamp (states v ! j)) t) \<and>
        (\<forall>j<k. abs_diff (timestamp (states v ! k)) t
                  < abs_diff (timestamp (states v ! j)) t)"
    by (auto simp: Let_def)
next
  assume ts: "map timestamp (states v) = [1, 3]"
  then obtain a b where ab: "states v = [a, b]" "timestamp a = 1" "timestamp b = 3"
    by auto
  then show "currentStateIndex (seekToTime v 2) = 0"
    by (simp add: seekToTime_def Let_def seekLoop.simps abs_diff_def round_double_values)
qed

theorem seekToTime_least_computed_difference_witness:
  "states run13 \<noteq> [] \<and>
   map timestamp (states run13) = [1, 3] \<and>
   currentStateIndex (seekToTime run13 2) = 0 \<and>
   currentStateIndex (seekToTime run13 3) = 1"
proof -
  have h: "states run13 \<noteq> []"
    "map timestamp (states run13) = [1, 3]"
    by (simp_all add: ex_defs)
  have "currentStateIndex (seekToTime run13 3) = 1"
    by (simp add: ex_defs seekToTime_def Let_def seekLoop.simps abs_diff_def
        round_double_values)
  then show ?thesis
    using h seekToTime_least_computed_difference [of run13 2] by simp
qed

section \<open>The history\<close>

lemma sameJSON_new:
  "sameJSON \<lparr>nodes = nodes g, links = links g, timestamp = ts, inSimulation = False\<rparr> g"
  by (simp add: sameJSON_def)

text \<open>
  A paused viewer renders no new state, and there the second of two equal graphs is a
  duplicate.
\<close>

lemma paused_reappend_is_deduped:
  "mode v = Paused \<Longrightarrow>
   addGraphData (snd (addGraphData v P t1)) P t2 = (Deduped, snd (addGraphData v P t1))"
  by (auto simp: addGraphData_def Let_def mode_def sameJSON_new)

text \<open>
  C2: adding the same pair of nodes and links twice leaves by the duplicate exit the
  second time, and the history as long as it was. The code does not do so in live mode:
  a new viewer adds the graph of the two example statements as tick 0 and renders it, and
  when the same statements arrive again it adds the same graph as tick 1, since the text
  of the rendered state is no longer the text of the new graph.
\<close>

theorem live_reappend_is_added:
  "mode (newViewer 0) = Live \<and>
   fst (addNewState (newViewer 0) example_triples 1000) = Added 0 \<and>
   fst (addNewState (snd (addNewState (newViewer 0) example_triples 1000))
          example_triples 2000) = Added 1 \<and>
   length (states (snd (addNewState (snd (addNewState (newViewer 0) example_triples 1000))
          example_triples 2000))) = 2"
  by (simp add: addNewState_def addGraphData_def sameJSON_def newViewer_def op_defs
      proj_defs shortenURI_examples)

text \<open>
  C6: when a new state is pushed on a history that is not empty, a live viewer moves the
  index to the new, newest tick and calls \<open>renderState\<close> for it with \<open>animate = true\<close>;
  a paused viewer keeps its index and renders nothing. Paused at index 1 of three states,
  a fourth state leaves the index at 1.
\<close>

theorem append_advances_when_live:
  "states v \<noteq> [] \<and> fst (addGraphData v g now) = Added tick \<longrightarrow>
     tick = length (states v) \<and>
     int tick = maxTick (snd (addGraphData v g now)) \<and>
     (mode v = Live \<longrightarrow>
        currentStateIndex (snd (addGraphData v g now)) = int tick \<and>
        renderCalls (snd (addGraphData v g now)) = renderCalls v @ [(int tick, True)]) \<and>
     (mode v = Paused \<longrightarrow>
        currentStateIndex (snd (addGraphData v g now)) = currentStateIndex v \<and>
        renderCalls (snd (addGraphData v g now)) = renderCalls v)"
  by (auto simp: addGraphData_def Let_def mode_def maxTick_def renderState_def split: if_splits)

theorem append_advances_when_live_witness:
  "states (seekToTick run3 1) \<noteq> [] \<and>
   fst (addGraphData (seekToTick run3 1) (graph [''a'', ''b'', ''c'', ''d'']) 4000)
     = Added 3 \<and>
   mode (seekToTick run3 1) = Paused \<and>
   currentStateIndex
     (snd (addGraphData (seekToTick run3 1) (graph [''a'', ''b'', ''c'', ''d'']) 4000))
     = 1 \<and>
   fst (addGraphData run3 (graph [''a'', ''b'', ''c'', ''d'']) 4000)
     = Added 3 \<and>
   mode run3 = Live \<and>
   currentStateIndex
     (snd (addGraphData run3 (graph [''a'', ''b'', ''c'', ''d'']) 4000))
     = 3 \<and>
   renderCalls
     (snd (addGraphData run3 (graph [''a'', ''b'', ''c'', ''d'']) 4000))
     = [(0, True), (1, True), (2, True), (3, True)]"
proof -
  let ?g = "graph [''a'', ''b'', ''c'', ''d'']"
  have p: "states (seekToTick run3 1) \<noteq> [] \<and>
     fst (addGraphData (seekToTick run3 1) ?g 4000) = Added 3 \<and>
     mode (seekToTick run3 1) = Paused \<and>
     currentStateIndex (seekToTick run3 1) = 1"
    by (simp add: addGraphData_def sameJSON_def op_defs ex_defs)
  have l: "states run3 \<noteq> [] \<and>
     fst (addGraphData run3 ?g 4000) = Added 3 \<and>
     mode run3 = Live \<and>
     renderCalls run3 = [(0, True), (1, True), (2, True)]"
    by (simp add: addGraphData_def sameJSON_def op_defs ex_defs)
  show ?thesis
    using p l
      append_advances_when_live [of "seekToTick run3 1" ?g 4000 3]
      append_advances_when_live [of run3 ?g 4000 3]
    by simp
qed

end
